theory Spec2Isabelle
  imports Main "HOL-Library.List_Lexorder" "HOL-Library.Char_ord"
begin

section \<open>JavaScript values\<close>

text \<open>
  The values that rows, metadata and thrown errors carry. Objects and arrays live in a
  heap and are referred to by address (\<open>JRef\<close>), so that two positions can hold the
  very same object and an object can reach itself. A number is an integral double in
  the safe range; a bigint is an unbounded integer. A date carries its ISO-8601 text,
  or \<open>None\<close> when its time value is invalid. Strings are sequences of bytes (UTF-8).
  Property names are column and metadata names: they are taken not to be canonical
  array indices (which an engine enumerates first) and, when read from a row, not to
  name members of \<open>Object.prototype\<close>.
\<close>

datatype jsval =
    JUndefined
  | JNull
  | JBool bool
  | JNum int
  | JBigInt int
  | JStr string
  | JDate "string option"
  | JRef nat

text \<open>The own enumerable properties of a plain object, in insertion order.\<close>

type_synonym object = "(string \<times> jsval) list"

datatype jsobj = JObject object | JArray "jsval list"

type_synonym heap = "(nat \<times> jsobj) list"

text \<open>Thrown values: \<open>new Error(msg)\<close>, and the engine's TypeError and RangeError.\<close>

datatype js_exn = Error string | TypeError | RangeError

text \<open>\<open>obj[key] = value\<close> on an object without inherited setters: an existing
  property keeps its place, a new one is added last.\<close>

fun assign :: "string \<Rightarrow> jsval \<Rightarrow> object \<Rightarrow> object" where
  "assign key v [] = [(key, v)]"
| "assign key v ((k, w) # ps) = (if k = key then (k, v) # ps else (k, w) # assign key v ps)"

text \<open>\<open>value == null\<close>: true of \<open>null\<close> and \<open>undefined\<close> only.\<close>

fun isNullish :: "jsval \<Rightarrow> bool" where
  "isNullish JUndefined = True"
| "isNullish JNull = True"
| "isNullish _ = False"

text \<open>\<open>record[field]\<close> on a row: the own property, or \<open>undefined\<close>.\<close>

definition getProp :: "object \<Rightarrow> string \<Rightarrow> jsval" where
  "getProp record field = (case map_of record field of None \<Rightarrow> JUndefined | Some v \<Rightarrow> v)"

section \<open>utils/metadata: mergeMetadata\<close>

definition forbiddenKey :: "string \<Rightarrow> bool" where
  "forbiddenKey key \<longleftrightarrow> key = ''__proto__'' \<or> key = ''constructor'' \<or> key = ''prototype''"

text \<open>
  The hardened variant (the one with \<open>Object.create(null)\<close>). \<open>mergeEntries\<close> is the
  inner loop over \<open>Object.entries(source)\<close>, \<open>mergeSources\<close> the outer loop over the
  sources; a source that is \<open>null\<close> or \<open>undefined\<close> is \<open>None\<close>.
\<close>

fun mergeEntries :: "object \<Rightarrow> object \<Rightarrow> object" where
  "mergeEntries [] merged = merged"
| "mergeEntries ((key, v) # rest) merged =
     (if forbiddenKey key then mergeEntries rest merged
      else if v = JUndefined then mergeEntries rest merged
      else mergeEntries rest (assign key v merged))"

fun mergeSources :: "object option list \<Rightarrow> object \<Rightarrow> object" where
  "mergeSources [] merged = merged"
| "mergeSources (None # sources) merged = mergeSources sources merged"
| "mergeSources (Some source # sources) merged = mergeSources sources (mergeEntries source merged)"

definition mergeMetadata :: "object option list \<Rightarrow> object option" where
  "mergeMetadata sources =
     (let merged = mergeSources sources []
      in if length (map fst merged) > 0 then Some merged else None)"

text \<open>
  For the statements about it: the entries of all sources, in order, that survive the two
  \<open>continue\<close> tests, and the loop body \<open>merged[key] = value\<close> run over a list of entries.
\<close>

definition usable :: "object option list \<Rightarrow> object" where
  "usable sources =
     filter (\<lambda>(key, v). \<not> forbiddenKey key \<and> v \<noteq> JUndefined)
       (concat (map (\<lambda>s. case s of None \<Rightarrow> [] | Some source \<Rightarrow> source) sources))"

definition assignAll :: "object \<Rightarrow> object \<Rightarrow> object" where
  "assignAll entries merged = fold (\<lambda>(key, v). assign key v) entries merged"

text \<open>
  The other variant of the same function: \<open>merged\<close> starts as the literal \<open>{}\<close> and no
  key is skipped. On an ordinary object the assignment \<open>merged["__proto__"] = v\<close> runs
  the inherited accessor, which creates no own property; every other name, also
  \<open>constructor\<close> and \<open>prototype\<close>, becomes an own property.
\<close>

definition assignOrdinary :: "string \<Rightarrow> jsval \<Rightarrow> object \<Rightarrow> object" where
  "assignOrdinary key v merged = (if key = ''__proto__'' then merged else assign key v merged)"

fun mergeEntries_plain :: "object \<Rightarrow> object \<Rightarrow> object" where
  "mergeEntries_plain [] merged = merged"
| "mergeEntries_plain ((key, v) # rest) merged =
     (if v = JUndefined then mergeEntries_plain rest merged
      else mergeEntries_plain rest (assignOrdinary key v merged))"

fun mergeSources_plain :: "object option list \<Rightarrow> object \<Rightarrow> object" where
  "mergeSources_plain [] merged = merged"
| "mergeSources_plain (None # sources) merged = mergeSources_plain sources merged"
| "mergeSources_plain (Some source # sources) merged =
     mergeSources_plain sources (mergeEntries_plain source merged)"

definition mergeMetadata_plain :: "object option list \<Rightarrow> object option" where
  "mergeMetadata_plain sources =
     (let merged = mergeSources_plain sources []
      in if length (map fst merged) > 0 then Some merged else None)"

section \<open>utils/logging: sanitizeError\<close>

text \<open>
  What a \<open>catch\<close> can receive: an instance of \<open>Error\<close> with its name, its message and
  whatever its \<open>code\<close> property holds (\<open>JUndefined\<close> when it has none), or any other
  value.
\<close>

datatype unknown = ErrorObject string string jsval | Plain jsval

datatype sanitized = Fields string string "string option" | Text string

fun sanitizeError :: "unknown \<Rightarrow> sanitized" where
  "sanitizeError (ErrorObject name message maybeCode) =
     Fields name message (case maybeCode of JStr c \<Rightarrow> Some c | _ \<Rightarrow> None)"
| "sanitizeError (Plain (JStr s)) = Text s"
| "sanitizeError (Plain _) = Text ''Unknown error''"


section \<open>Strings\<close>

text \<open>Decimal text of an integer, as \<open>String(n)\<close> and \<open>n.toString()\<close> give it;
  \<open>showNat\<close> is for the integers from 0 on.\<close>

definition digitChar :: "nat \<Rightarrow> char" where
  "digitChar d = ''0123456789abcdef'' ! d"

function showNat :: "int \<Rightarrow> string" where
  "showNat i = (if i < 10 then [digitChar (nat i)] else showNat (i div 10) @ [digitChar (nat (i mod 10))])"
  by pat_completeness auto
termination
  by (relation "measure nat") auto

declare showNat.simps [simp del]

definition showInt :: "int \<Rightarrow> string" where
  "showInt i = (if i < 0 then CHR ''-'' # showNat (- i) else showNat i)"

text \<open>\<open>Array.prototype.join\<close> on an array of strings.\<close>

fun join :: "string \<Rightarrow> string list \<Rightarrow> string" where
  "join sep [] = []"
| "join sep [x] = x"
| "join sep (x # y # ys) = x @ sep @ join sep (y # ys)"

text \<open>\<open>s.endsWith(t)\<close>, \<open>s.includes(t)\<close> and \<open>s.toLowerCase()\<close> (on the ASCII letters; no
  other character lowers to \<open>i\<close> or \<open>d\<close>).\<close>

definition endsWith :: "string \<Rightarrow> string \<Rightarrow> bool" where
  "endsWith s t \<longleftrightarrow> length t \<le> length s \<and> drop (length s - length t) s = t"

fun stringIncludes :: "string \<Rightarrow> string \<Rightarrow> bool" where
  "stringIncludes [] t = (t = [])"
| "stringIncludes (c # s) t = (take (length t) (c # s) = t \<or> stringIncludes s t)"

definition toLowerCase :: "string \<Rightarrow> string" where
  "toLowerCase s =
     map (\<lambda>c. if CHR ''A'' \<le> c \<and> c \<le> CHR ''Z'' then char_of (of_char c + (32::nat)) else c) s"

text \<open>
  QuoteJSONString: the text between double quotes (code 0x22), with the quote, the
  backslash (0x5C) and the control characters escaped.
\<close>

definition quoteChar :: "char \<Rightarrow> string" where
  "quoteChar c =
     (if c = CHR 0x08 then [CHR 0x5C, CHR ''b'']
      else if c = CHR 0x09 then [CHR 0x5C, CHR ''t'']
      else if c = CHR 0x0A then [CHR 0x5C, CHR ''n'']
      else if c = CHR 0x0C then [CHR 0x5C, CHR ''f'']
      else if c = CHR 0x0D then [CHR 0x5C, CHR ''r'']
      else if c = CHR 0x22 then [CHR 0x5C, CHR 0x22]
      else if c = CHR 0x5C then [CHR 0x5C, CHR 0x5C]
      else if (of_char c :: nat) < 32 then
        [CHR 0x5C, CHR ''u'', CHR ''0'', CHR ''0'',
         digitChar ((of_char c :: nat) div 16), digitChar ((of_char c :: nat) mod 16)]
      else [c])"

definition quoted :: "string \<Rightarrow> string" where
  "quoted s = CHR 0x22 # s @ [CHR 0x22]"

definition quoteJSONString :: "string \<Rightarrow> string" where
  "quoteJSONString s = quoted (concat (map quoteChar s))"

section \<open>utils/primary-key: the safe JSON encoder\<close>

text \<open>An address that the heap does not list holds an empty plain object.\<close>

definition deref :: "heap \<Rightarrow> nat \<Rightarrow> jsobj" where
  "deref h a = (case map_of h a of Some ob \<Rightarrow> ob | None \<Rightarrow> JObject [])"

text \<open>
  \<open>JSON.stringify(record, replacer)\<close> runs SerializeJSONProperty of the language
  standard: first the value's own \<open>toJSON\<close> (dates have one: the ISO text, or \<open>null\<close> for
  an invalid date), then the replacer, then the serialization by kind. \<open>seen\<close> is the
  replacer's WeakSet, \<open>stack\<close> the encoder's own list of the objects it is inside of
  (it throws a TypeError on meeting one of them again, and on a bigint).
\<close>

fun toJSON :: "jsval \<Rightarrow> jsval" where
  "toJSON (JDate None) = JNull"
| "toJSON (JDate (Some t)) = JStr t"
| "toJSON v = v"

text \<open>The replacer of safeStringifyForPK (\<open>toISOString\<close> throws a RangeError on an
  invalid date).\<close>

fun replacer :: "nat set \<Rightarrow> jsval \<Rightarrow> js_exn + (jsval \<times> nat set)" where
  "replacer seen (JBigInt i) = Inr (JStr (showInt i), seen)"
| "replacer seen (JDate None) = Inl RangeError"
| "replacer seen (JDate (Some t)) = Inr (JStr t, seen)"
| "replacer seen (JRef a) =
     (if a \<in> seen then Inr (JStr ''[Circular]'', seen) else Inr (JRef a, insert a seen))"
| "replacer seen v = Inr (v, seen)"

text \<open>
  The traversal is bounded by a fuel that each level of nesting uses up: \<open>None\<close> is
  "out of fuel", \<open>Some (Inl e)\<close> a thrown exception, \<open>Some (Inr r)\<close> a result. The
  result of a property is its text, or \<open>None\<close> for \<open>undefined\<close>, and the WeakSet after it.
\<close>

type_synonym 'a outcome = "(js_exn + 'a) option"

text \<open>The loops of SerializeJSONObject and SerializeJSONArray over the members, with
  the serialization \<open>f\<close> of one property.\<close>

fun serMembers ::
  "(nat set \<Rightarrow> jsval \<Rightarrow> (string option \<times> nat set) outcome) \<Rightarrow> nat set \<Rightarrow> object
   \<Rightarrow> (string list \<times> nat set) outcome" where
  "serMembers f seen [] = Some (Inr ([], seen))"
| "serMembers f seen ((key, v) # rest) =
     (case f seen v of
        None \<Rightarrow> None
      | Some (Inl e) \<Rightarrow> Some (Inl e)
      | Some (Inr (strP, seen1)) \<Rightarrow>
          (case serMembers f seen1 rest of
             None \<Rightarrow> None
           | Some (Inl e) \<Rightarrow> Some (Inl e)
           | Some (Inr (partial, seen2)) \<Rightarrow>
               Some (Inr ((case strP of
                             None \<Rightarrow> partial
                           | Some str \<Rightarrow> (quoteJSONString key @ '':'' @ str) # partial),
                          seen2))))"

fun serElements ::
  "(nat set \<Rightarrow> jsval \<Rightarrow> (string option \<times> nat set) outcome) \<Rightarrow> nat set \<Rightarrow> jsval list
   \<Rightarrow> (string list \<times> nat set) outcome" where
  "serElements f seen [] = Some (Inr ([], seen))"
| "serElements f seen (v # rest) =
     (case f seen v of
        None \<Rightarrow> None
      | Some (Inl e) \<Rightarrow> Some (Inl e)
      | Some (Inr (strP, seen1)) \<Rightarrow>
          (case serElements f seen1 rest of
             None \<Rightarrow> None
           | Some (Inl e) \<Rightarrow> Some (Inl e)
           | Some (Inr (partial, seen2)) \<Rightarrow>
               Some (Inr ((case strP of None \<Rightarrow> ''null'' | Some str \<Rightarrow> str) # partial, seen2))))"

fun serProperty ::
  "nat \<Rightarrow> heap \<Rightarrow> nat list \<Rightarrow> nat set \<Rightarrow> jsval \<Rightarrow> (string option \<times> nat set) outcome" where
  "serProperty 0 h stack seen v = None"
| "serProperty (Suc n) h stack seen v =
     (case replacer seen (toJSON v) of
        Inl e \<Rightarrow> Some (Inl e)
      | Inr (v', seen') \<Rightarrow>
          (case v' of
             JNull \<Rightarrow> Some (Inr (Some ''null'', seen'))
           | JBool b \<Rightarrow> Some (Inr (Some (if b then ''true'' else ''false''), seen'))
           | JStr s \<Rightarrow> Some (Inr (Some (quoteJSONString s), seen'))
           | JNum i \<Rightarrow> Some (Inr (Some (showInt i), seen'))
           | JBigInt i \<Rightarrow> Some (Inl TypeError)
           | JUndefined \<Rightarrow> Some (Inr (None, seen'))
           | JDate d \<Rightarrow> Some (Inr (Some ''{}'', seen'))
           | JRef a \<Rightarrow>
               if a \<in> set stack then Some (Inl TypeError)
               else
                 (case deref h a of
                    JObject props \<Rightarrow>
                      (case serMembers (serProperty n h (a # stack)) seen' props of
                         None \<Rightarrow> None
                       | Some (Inl e) \<Rightarrow> Some (Inl e)
                       | Some (Inr (partial, seen'')) \<Rightarrow>
                           Some (Inr (Some (''{'' @ join '','' partial @ ''}''), seen'')))
                  | JArray elems \<Rightarrow>
                      (case serElements (serProperty n h (a # stack)) seen' elems of
                         None \<Rightarrow> None
                       | Some (Inl e) \<Rightarrow> Some (Inl e)
                       | Some (Inr (partial, seen'')) \<Rightarrow>
                           Some (Inr (Some (''['' @ join '','' partial @ '']''), seen''))))))"

text \<open>\<open>Object.entries\<close> of a heap object (an array's keys are its indices).\<close>

fun objectEntries :: "jsobj \<Rightarrow> object" where
  "objectEntries (JObject props) = props"
| "objectEntries (JArray elems) = zip (map (showNat \<circ> int) [0..<length elems]) elems"

text \<open>
  safeStringifyForPK on the object at address \<open>a\<close>: the text, or \<open>None\<close> if
  \<open>JSON.stringify\<close> returns \<open>undefined\<close>; an exception is caught and gives the fallback
  key built from the sorted property names. The outer \<open>None\<close> is "out of fuel".
\<close>

definition fallbackKey :: "string list \<Rightarrow> string" where
  "fallbackKey keys =
     ''composite_key_'' @ join ''_'' (sort keys) @ ''_'' @ showNat (int (length keys))"

definition safeStringifyForPK :: "nat \<Rightarrow> heap \<Rightarrow> nat \<Rightarrow> string option option" where
  "safeStringifyForPK n h a =
     (case serProperty n h [] {} (JRef a) of
        None \<Rightarrow> None
      | Some (Inr (str, seen)) \<Rightarrow> Some str
      | Some (Inl e) \<Rightarrow> Some (Some (fallbackKey (map fst (objectEntries (deref h a))))))"

section \<open>utils/primary-key: extractPrimaryKey with a configured key\<close>

text \<open>
  \<open>String(v)\<close>. For a date or an object it is what the value's own \<open>toString\<close> returns,
  which depends on the host (time zone, engine): the parameter \<open>ots\<close>.
\<close>

fun jsString :: "(jsval \<Rightarrow> string) \<Rightarrow> jsval \<Rightarrow> string" where
  "jsString ots JUndefined = ''undefined''"
| "jsString ots JNull = ''null''"
| "jsString ots (JBool b) = (if b then ''true'' else ''false'')"
| "jsString ots (JNum i) = showInt i"
| "jsString ots (JBigInt i) = showInt i"
| "jsString ots (JStr s) = s"
| "jsString ots (JDate d) = ots (JDate d)"
| "jsString ots (JRef a) = ots (JRef a)"

text \<open>The \<open>primaryKey\<close> of a table's configuration: one column name, or an array.\<close>

datatype primaryKey = Single string | Multi "string list"

text \<open>\<open>Array.isArray(key) ? key : [key]\<close>.\<close>

fun keysOf :: "primaryKey \<Rightarrow> string list" where
  "keysOf (Multi ks) = ks"
| "keysOf (Single k) = [k]"

text \<open>The loop of extractConfiguredPrimaryKey; \<open>None\<close> is its \<open>return null\<close>.\<close>

fun resolveKeys :: "object \<Rightarrow> string list \<Rightarrow> object \<Rightarrow> object option" where
  "resolveKeys record [] resolved = Some resolved"
| "resolveKeys record (field # keys) resolved =
     (let v = getProp record field
      in if isNullish v then None else resolveKeys record keys (assign field v resolved))"

text \<open>
  \<open>resolved\<close> is a new object: it gets an address that neither the heap nor the values
  of \<open>resolved\<close> mention.
\<close>

fun addrsOfVal :: "jsval \<Rightarrow> nat list" where
  "addrsOfVal (JRef a) = [a]"
| "addrsOfVal _ = []"

definition addrsOf :: "heap \<Rightarrow> object \<Rightarrow> nat list" where
  "addrsOf h resolved =
     concat (map (\<lambda>(a, ob). a # concat (map (addrsOfVal \<circ> snd) (objectEntries ob))) h)
     @ concat (map (addrsOfVal \<circ> snd) resolved)"

definition newAddr :: "heap \<Rightarrow> object \<Rightarrow> nat" where
  "newAddr h resolved = Suc (fold max (addrsOf h resolved) 0)"

text \<open>The result is the key text, or \<open>None\<close> for \<open>null\<close> (and for an \<open>undefined\<close> that
  safeStringifyForPK would pass on); the outer \<open>None\<close> is "out of fuel".\<close>

definition extractConfiguredPrimaryKey ::
  "nat \<Rightarrow> (jsval \<Rightarrow> string) \<Rightarrow> heap \<Rightarrow> object \<Rightarrow> primaryKey \<Rightarrow> string option option" where
  "extractConfiguredPrimaryKey n ots h record key =
     (let keys = keysOf key
      in case resolveKeys record keys [] of
           None \<Rightarrow> Some None
         | Some resolved \<Rightarrow>
             if length keys = 1 then Some (Some (jsString ots (getProp resolved (hd keys))))
             else (let a = newAddr h resolved
                   in safeStringifyForPK n ((a, JObject resolved) # h) a))"

text \<open>
  \<open>tableConfigMap[tableName]?.primaryKey\<close> is \<open>None\<close> when the map has no entry for the
  table. \<open>!configuredKey\<close> also holds of the empty string; an empty array is truthy.
\<close>

definition extractPrimaryKey ::
  "nat \<Rightarrow> (jsval \<Rightarrow> string) \<Rightarrow> heap \<Rightarrow> object \<Rightarrow> string \<Rightarrow> (string \<Rightarrow> primaryKey option)
   \<Rightarrow> (js_exn + string) option" where
  "extractPrimaryKey n ots h record table tableConfigMap =
     (let configuredKey = tableConfigMap table
      in if configuredKey = None \<or> configuredKey = Some (Single []) then
           Some (Inl (Error (''tables.'' @ table @ ''.primaryKey is required'')))
         else
           (case extractConfiguredPrimaryKey n ots h record (the configuredKey) of
              None \<Rightarrow> None
            | Some None \<Rightarrow>
                Some (Inl (Error (''record missing configured primaryKey field(s) for table: ''
                                  @ table)))
            | Some (Some configured) \<Rightarrow> Some (Inr configured)))"

text \<open>\<open>records.map(record => extractPrimaryKey(...))\<close>: the first exception ends the call.\<close>

fun extractPrimaryKeys ::
  "nat \<Rightarrow> (jsval \<Rightarrow> string) \<Rightarrow> heap \<Rightarrow> object list \<Rightarrow> string \<Rightarrow> (string \<Rightarrow> primaryKey option)
   \<Rightarrow> (js_exn + string list) option" where
  "extractPrimaryKeys n ots h [] table tableConfigMap = Some (Inr [])"
| "extractPrimaryKeys n ots h (record # records) table tableConfigMap =
     (case extractPrimaryKey n ots h record table tableConfigMap of
        None \<Rightarrow> None
      | Some (Inl e) \<Rightarrow> Some (Inl e)
      | Some (Inr rid) \<Rightarrow>
          (case extractPrimaryKeys n ots h records table tableConfigMap of
             None \<Rightarrow> None
           | Some (Inl e) \<Rightarrow> Some (Inl e)
           | Some (Inr rids) \<Rightarrow> Some (Inr (rid # rids))))"

section \<open>utils/primary-key: extractPrimaryKey by guessing\<close>

text \<open>
  The variant of src/utils/primary-key.ts with two parameters, the one that
  createUpdateAuditLogs calls: it takes no configuration, tries the common key names,
  then any property whose name ends in \<open>id\<close>, then the JSON text of the whole row. The
  row is the object at address \<open>a\<close>. It never throws.
\<close>

fun firstCommon :: "object \<Rightarrow> string list \<Rightarrow> string option" where
  "firstCommon record [] = None"
| "firstCommon record (field # rest) =
     (if field \<in> set (map fst record) \<and> \<not> isNullish (getProp record field) then Some field
      else firstCommon record rest)"

definition extractPrimaryKey_guess ::
  "nat \<Rightarrow> (jsval \<Rightarrow> string) \<Rightarrow> heap \<Rightarrow> nat \<Rightarrow> string \<Rightarrow> string option option" where
  "extractPrimaryKey_guess n ots h a table =
     (let record = objectEntries (deref h a);
          commonPkFields = [''id'', table @ ''_id'', ''uuid'', ''pk'']
      in case firstCommon record commonPkFields of
           Some field \<Rightarrow> Some (Some (jsString ots (getProp record field)))
         | None \<Rightarrow>
             (case find (\<lambda>key. endsWith (toLowerCase key) ''id'' \<and> \<not> isNullish (getProp record key))
                     (map fst record) of
                Some idField \<Rightarrow>
                  if idField \<noteq> [] then Some (Some (jsString ots (getProp record idField)))
                  else safeStringifyForPK n h a
              | None \<Rightarrow> safeStringifyForPK n h a))"

section \<open>capture/update: createUpdateAuditLogs\<close>

text \<open>The audit record before storage (types/audit). The transform sets all four fields.\<close>

record AuditLog =
  action :: string
  tableName :: string
  recordId :: string
  "values" :: object

datatype tables = AllTables | TableList "string list"

datatype updateValuesMode = Full | Changed

text \<open>The data fields of the normalized configuration; \<open>fieldsOf\<close> is its \<open>fields\<close> (the callbacks are not
  read by the code below).\<close>

record NormalizedConfig =
  tables :: tables
  fieldsOf :: "string \<Rightarrow> string list option"
  excludeFields :: "string list"
  auditTable :: string
  strictMode :: bool
  updateValuesMode :: updateValuesMode

text \<open>
  createUpdateAuditLogs imports three helpers: \<open>extractPrimaryKey\<close> (below in two
  variants; it can throw), and \<open>filterFields\<close> and \<open>getChangedValues\<close> of
  utils/serializer, which is not among the sources. All three are parameters here:
  \<open>pk\<close>, \<open>ff\<close> and \<open>gcv\<close>. An entry of a row array that is \<open>null\<close> or \<open>undefined\<close>
  is \<open>None\<close>; a thrown exception is \<open>Inl\<close> and ends the call.
\<close>

type_synonym extractor = "object \<Rightarrow> string \<Rightarrow> js_exn + string"
type_synonym fieldFilter = "object \<Rightarrow> string \<Rightarrow> NormalizedConfig \<Rightarrow> object"
type_synonym differ = "object \<Rightarrow> object \<Rightarrow> object option"

definition updateLog :: "string \<Rightarrow> string \<Rightarrow> object \<Rightarrow> AuditLog" where
  "updateLog table rid vals =
     \<lparr>action = ''UPDATE'', tableName = table, recordId = rid, values = vals\<rparr>"

text \<open>The loop of the full mode (lines 19 to 29); \<open>logs\<close> is the array built so far.\<close>

fun fullLogs ::
  "extractor \<Rightarrow> fieldFilter \<Rightarrow> string \<Rightarrow> NormalizedConfig \<Rightarrow> object option list
   \<Rightarrow> AuditLog list \<Rightarrow> js_exn + AuditLog list" where
  "fullLogs pk ff table cfg [] logs = Inr logs"
| "fullLogs pk ff table cfg (None # afterRecords) logs = fullLogs pk ff table cfg afterRecords logs"
| "fullLogs pk ff table cfg (Some after # afterRecords) logs =
     (let vals = ff after table cfg
      in case pk after table of
           Inl e \<Rightarrow> Inl e
         | Inr rid \<Rightarrow> fullLogs pk ff table cfg afterRecords (logs @ [updateLog table rid vals]))"

text \<open>The loop that fills \<open>beforeById\<close> (lines 33 to 37): a later row with the same key
  replaces an earlier one.\<close>

fun indexBefore ::
  "extractor \<Rightarrow> string \<Rightarrow> object option list \<Rightarrow> (string \<Rightarrow> object option)
   \<Rightarrow> js_exn + (string \<Rightarrow> object option)" where
  "indexBefore pk table [] beforeById = Inr beforeById"
| "indexBefore pk table (None # beforeRecords) beforeById =
     indexBefore pk table beforeRecords beforeById"
| "indexBefore pk table (Some before # beforeRecords) beforeById =
     (case pk before table of
        Inl e \<Rightarrow> Inl e
      | Inr rid \<Rightarrow> indexBefore pk table beforeRecords (beforeById(rid \<mapsto> before)))"

text \<open>The matching loop (lines 40 to 69).\<close>

fun changedLogs ::
  "extractor \<Rightarrow> fieldFilter \<Rightarrow> differ \<Rightarrow> string \<Rightarrow> NormalizedConfig
   \<Rightarrow> (string \<Rightarrow> object option) \<Rightarrow> object option list
   \<Rightarrow> AuditLog list \<Rightarrow> js_exn + AuditLog list" where
  "changedLogs pk ff gcv table cfg beforeById [] logs = Inr logs"
| "changedLogs pk ff gcv table cfg beforeById (None # afterRecords) logs =
     changedLogs pk ff gcv table cfg beforeById afterRecords logs"
| "changedLogs pk ff gcv table cfg beforeById (Some after # afterRecords) logs =
     (case pk after table of
        Inl e \<Rightarrow> Inl e
      | Inr rid \<Rightarrow>
          (case beforeById rid of
             None \<Rightarrow>
               (let vals = ff after table cfg
                in case pk after table of
                     Inl e \<Rightarrow> Inl e
                   | Inr rid' \<Rightarrow>
                       changedLogs pk ff gcv table cfg beforeById afterRecords
                         (logs @ [updateLog table rid' vals]))
           | Some before \<Rightarrow>
               (let beforeValues = ff before table cfg;
                    afterValues = ff after table cfg;
                    changedValues = gcv beforeValues afterValues
                in case changedValues of
                     None \<Rightarrow> changedLogs pk ff gcv table cfg beforeById afterRecords logs
                   | Some changed \<Rightarrow>
                       if length (map fst changed) > 0 then
                         (case pk after table of
                            Inl e \<Rightarrow> Inl e
                          | Inr rid' \<Rightarrow>
                              changedLogs pk ff gcv table cfg beforeById afterRecords
                                (logs @ [updateLog table rid' changed]))
                       else changedLogs pk ff gcv table cfg beforeById afterRecords logs)))"

definition createUpdateAuditLogs ::
  "extractor \<Rightarrow> fieldFilter \<Rightarrow> differ \<Rightarrow> string \<Rightarrow> object option list \<Rightarrow> object option list
   \<Rightarrow> NormalizedConfig \<Rightarrow> js_exn + AuditLog list" where
  "createUpdateAuditLogs pk ff gcv table beforeRecords afterRecords cfg =
     (if updateValuesMode cfg = Full \<or> length beforeRecords = 0 then
        fullLogs pk ff table cfg afterRecords []
      else
        (case indexBefore pk table beforeRecords Map.empty of
           Inl e \<Rightarrow> Inl e
         | Inr beforeById \<Rightarrow> changedLogs pk ff gcv table cfg beforeById afterRecords []))"

text \<open>The entries of a row array that are rows.\<close>

definition presentRows :: "object option list \<Rightarrow> object list" where
  "presentRows records = concat (map (\<lambda>r. case r of None \<Rightarrow> [] | Some row \<Rightarrow> [row]) records)"

text \<open>
  Modelled from the spec: \<open>getChangedValues\<close> of utils/serializer, which is not among the
  sources. The spec: it "returns the mapping of keys present in after whose value
  differs from before by structural equality", "a key present only in after is
  considered changed", and it "returns empty mapping if nothing changed". The
  structural equality of two values is the parameter \<open>same\<close>.
\<close>

definition differsFrom :: "(jsval \<Rightarrow> jsval \<Rightarrow> bool) \<Rightarrow> object \<Rightarrow> string \<times> jsval \<Rightarrow> bool" where
  "differsFrom same before = (\<lambda>(key, v). case map_of before key of None \<Rightarrow> True | Some w \<Rightarrow> \<not> same w v)"

definition getChangedValues :: "(jsval \<Rightarrow> jsval \<Rightarrow> bool) \<Rightarrow> object \<Rightarrow> object \<Rightarrow> object" where
  "getChangedValues same before after = filter (differsFrom same before) after"

section \<open>The logger facade: shouldAudit and the manual operations\<close>

text \<open>
  The logger holds its configuration, the current context and its writer. The writer
  and the INSERT and DELETE transforms are not among the sources: \<open>write\<close> is
  \<open>writer.writeAuditLogs\<close>, taking the logs, the context and the writer's state to a
  result and the writer's new state; \<open>mk\<close> is \<open>createInsertAuditLogs\<close> or
  \<open>createDeleteAuditLogs\<close>. An argument is one row or an array of rows.
\<close>

record ('c, 'w) AuditLogger =
  config :: NormalizedConfig
  contextManager :: 'c
  writer :: 'w

datatype 'a oneOrMany = One 'a | Many "'a list"

fun asArray :: "'a oneOrMany \<Rightarrow> 'a list" where
  "asArray (Many rs) = rs"
| "asArray (One r) = [r]"

type_synonym ('c, 'w) writeFn = "AuditLog list \<Rightarrow> 'c \<Rightarrow> 'w \<Rightarrow> (js_exn + unit) \<times> 'w"
type_synonym transform = "string \<Rightarrow> object option list \<Rightarrow> NormalizedConfig \<Rightarrow> js_exn + AuditLog list"

definition shouldAudit :: "NormalizedConfig \<Rightarrow> string \<Rightarrow> bool" where
  "shouldAudit cfg table =
     (if table = auditTable cfg then False
      else if tables cfg = AllTables then True
      else (case tables cfg of TableList ts \<Rightarrow> table \<in> set ts | AllTables \<Rightarrow> True))"

definition writeLogs ::
  "('c, 'w) writeFn \<Rightarrow> js_exn + AuditLog list \<Rightarrow> ('c, 'w) AuditLogger
   \<Rightarrow> (js_exn + unit) \<times> ('c, 'w) AuditLogger" where
  "writeLogs write built lg =
     (case built of
        Inl e \<Rightarrow> (Inl e, lg)
      | Inr logs \<Rightarrow>
          (case write logs (contextManager lg) (writer lg) of (res, w) \<Rightarrow> (res, lg\<lparr>writer := w\<rparr>)))"

definition logInsert ::
  "transform \<Rightarrow> ('c, 'w) writeFn \<Rightarrow> string \<Rightarrow> object option oneOrMany \<Rightarrow> ('c, 'w) AuditLogger
   \<Rightarrow> (js_exn + unit) \<times> ('c, 'w) AuditLogger" where
  "logInsert mk write table insertedRecords lg =
     (if \<not> shouldAudit (config lg) table then (Inr (), lg)
      else writeLogs write (mk table (asArray insertedRecords) (config lg)) lg)"

definition logUpdate ::
  "extractor \<Rightarrow> fieldFilter \<Rightarrow> differ \<Rightarrow> ('c, 'w) writeFn \<Rightarrow> string \<Rightarrow> object option oneOrMany
   \<Rightarrow> object option oneOrMany \<Rightarrow> ('c, 'w) AuditLogger
   \<Rightarrow> (js_exn + unit) \<times> ('c, 'w) AuditLogger" where
  "logUpdate pk ff gcv write table beforeRecords afterRecords lg =
     (if \<not> shouldAudit (config lg) table then (Inr (), lg)
      else writeLogs write
             (createUpdateAuditLogs pk ff gcv table (asArray beforeRecords) (asArray afterRecords)
                (config lg)) lg)"

definition logDelete ::
  "transform \<Rightarrow> ('c, 'w) writeFn \<Rightarrow> string \<Rightarrow> object option oneOrMany \<Rightarrow> ('c, 'w) AuditLogger
   \<Rightarrow> (js_exn + unit) \<times> ('c, 'w) AuditLogger" where
  "logDelete mk write table deletedRecords lg =
     (if \<not> shouldAudit (config lg) table then (Inr (), lg)
      else writeLogs write (mk table (asArray deletedRecords) (config lg)) lg)"

section \<open>Auxiliary notions for the proofs\<close>

text \<open>A property serializer \<open>f\<close> settles from \<open>S\<close> on: started with any WeakSet that
  contains \<open>S\<close> it returns a result, and its WeakSet only grows.\<close>

definition settles :: "(nat set \<Rightarrow> jsval \<Rightarrow> (string option \<times> nat set) outcome) \<Rightarrow> nat set \<Rightarrow> bool" where
  "settles f S \<longleftrightarrow>
     (\<forall>seen v. S \<subseteq> seen \<longrightarrow> (\<exists>r seen'. f seen v = Some (Inr (r, seen')) \<and> seen \<subseteq> seen'))"


section \<open>Properties of mergeMetadata\<close>

subsection \<open>Property assignment\<close>

lemma keys_assign: "fst ` set (assign key v ps) = insert key (fst ` set ps)"
  by (induction key v ps rule: assign.induct) (simp_all add: insert_commute)

lemma map_of_assign: "map_of (assign key v ps) = (map_of ps)(key \<mapsto> v)"
  by (induction ps) auto

lemma distinct_assign: "distinct (map fst ps) \<Longrightarrow> distinct (map fst (assign key v ps))"
  by (induction ps) (auto simp: keys_assign)

lemma assign_twice: "assign key v (assign key w ps) = assign key v ps"
  by (induction ps) auto

lemma assign_swap:
  "key \<noteq> k \<Longrightarrow> key \<in> fst ` set ps \<Longrightarrow>
   assign key v (assign k w ps) = assign k w (assign key v ps)"
  by (induction ps) force+

lemma assign_ne_Nil: "assign key v ps \<noteq> []"
  by (cases ps) (auto split: if_splits)

lemma mergeEntries_fold:
  "mergeEntries source merged =
   assignAll (filter (\<lambda>(key, v). \<not> forbiddenKey key \<and> v \<noteq> JUndefined) source) merged"
  by (induction source merged rule: mergeEntries.induct) (auto simp: assignAll_def)

lemma assignAll_append: "assignAll (xs @ ys) m = assignAll ys (assignAll xs m)"
  by (simp add: assignAll_def)

lemma mergeSources_fold: "mergeSources sources merged = assignAll (usable sources) merged"
  by (induction sources merged rule: mergeSources.induct)
     (simp_all add: usable_def mergeEntries_fold assignAll_append [symmetric], simp add: assignAll_def)

lemma keys_assignAll: "fst ` set (assignAll es m) = fst ` set es \<union> fst ` set m"
  unfolding assignAll_def by (induction es arbitrary: m) (simp_all add: keys_assign split_beta Un_commute insert_commute)

lemma distinct_assignAll: "distinct (map fst m) \<Longrightarrow> distinct (map fst (assignAll es m))"
  unfolding assignAll_def by (induction es arbitrary: m) (auto simp: distinct_assign)

lemma map_of_assignAll: "map_of (assignAll es m) = map_of m ++ map_of (rev es)"
  unfolding assignAll_def
  by (induction es arbitrary: m) (auto simp: map_of_assign map_add_upd_left fun_eq_iff map_add_def split: option.splits)

lemma assignAll_commute:
  "key \<notin> fst ` set es \<Longrightarrow> key \<in> fst ` set m \<Longrightarrow>
   assign key v (assignAll es m) = assignAll es (assign key v m)"
proof (induction es arbitrary: m)
  case Nil
  then show ?case by (simp add: assignAll_def)
next
  case (Cons e es)
  obtain k w where e: "e = (k, w)" by (cases e)
  from Cons.prems have ne: "key \<noteq> k" and notin: "key \<notin> fst ` set es" by (auto simp: e)
  have "assign key v (assignAll (e # es) m) = assign key v (assignAll es (assign k w m))"
    by (simp add: assignAll_def e)
  also have "\<dots> = assignAll es (assign key v (assign k w m))"
    using Cons.IH [OF notin, of "assign k w m"] Cons.prems(2) by (simp add: keys_assign)
  also have "\<dots> = assignAll es (assign k w (assign key v m))"
    using assign_swap [OF ne Cons.prems(2)] by simp
  finally show ?case by (simp add: assignAll_def e)
qed

lemma assignAll_assign:
  "distinct (map fst al) \<Longrightarrow> assignAll (assign key v al) m = assign key v (assignAll al m)"
proof (induction al arbitrary: m)
  case Nil
  then show ?case by (simp add: assignAll_def)
next
  case (Cons e al)
  obtain k w where e: "e = (k, w)" by (cases e)
  show ?case
  proof (cases "k = key")
    case True
    from Cons.prems have notin: "key \<notin> fst ` set al" by (auto simp: e True)
    have "assign key v (assignAll (e # al) m) = assign key v (assignAll al (assign key w m))"
      by (simp add: assignAll_def e True)
    also have "\<dots> = assignAll al (assign key v (assign key w m))"
      by (rule assignAll_commute [OF notin]) (simp add: keys_assign)
    also have "\<dots> = assignAll al (assign key v m)" by (simp add: assign_twice)
    finally show ?thesis by (simp add: assignAll_def e True)
  next
    case False
    with Cons show ?thesis by (simp add: assignAll_def e)
  qed
qed

lemma assignAll_idem: "assignAll (assignAll es []) m = assignAll es m"
proof (induction es rule: rev_induct)
  case Nil
  then show ?case by (simp add: assignAll_def)
next
  case (snoc e es)
  obtain k w where e: "e = (k, w)" by (cases e)
  have d: "distinct (map fst (assignAll es []))" by (rule distinct_assignAll) simp
  have "assignAll (assignAll (es @ [e]) []) m = assignAll (assign k w (assignAll es [])) m"
    by (simp add: assignAll_def e)
  also have "\<dots> = assign k w (assignAll (assignAll es []) m)" by (rule assignAll_assign [OF d])
  also have "\<dots> = assign k w (assignAll es m)" by (simp add: snoc.IH)
  finally show ?case by (simp add: assignAll_def e)
qed


lemma mergeMetadata_usable:
  "mergeMetadata sources = (if usable sources = [] then None else Some (assignAll (usable sources) []))"
proof (cases "usable sources")
  case Nil
  then show ?thesis by (simp add: mergeMetadata_def mergeSources_fold assignAll_def)
next
  case (Cons e es)
  have "fst ` set (assignAll (usable sources) []) \<noteq> {}"
    by (simp add: keys_assignAll Cons)
  then have "assignAll (usable sources) [] \<noteq> []" by auto
  then show ?thesis by (simp add: mergeMetadata_def mergeSources_fold Cons)
qed

lemma usable_append: "usable (xs @ ys) = usable xs @ usable ys"
  by (simp add: usable_def)

lemma usable_Cons_None: "usable (None # xs) = usable xs"
  by (simp add: usable_def)

lemma usable_Cons_Some:
  "usable (Some source # xs) =
   filter (\<lambda>(key, v). \<not> forbiddenKey key \<and> v \<noteq> JUndefined) source @ usable xs"
  by (simp add: usable_def)

lemma usable_entry: "(key, v) \<in> set (usable sources) \<Longrightarrow> \<not> forbiddenKey key \<and> v \<noteq> JUndefined"
  by (auto simp: usable_def)

lemma set_assignAll: "set (assignAll es m) \<subseteq> set es \<union> set m"
proof (induction es arbitrary: m)
  case Nil
  then show ?case by (simp add: assignAll_def)
next
  case (Cons e es)
  obtain k w where e: "e = (k, w)" by (cases e)
  have a: "set (assign k w m) \<subseteq> insert (k, w) (set m)"
    by (induction k w m rule: assign.induct) auto
  have "set (assignAll (e # es) m) = set (assignAll es (assign k w m))"
    by (simp add: assignAll_def e)
  also have "\<dots> \<subseteq> set es \<union> set (assign k w m)" by (rule Cons.IH)
  also have "\<dots> \<subseteq> set (e # es) \<union> set m" using a by (auto simp: e)
  finally show ?case .
qed

lemma filter_usable_id:
  "set m \<subseteq> set (usable sources) \<Longrightarrow>
   filter (\<lambda>(key, v). \<not> forbiddenKey key \<and> v \<noteq> JUndefined) m = m"
  by (rule filter_True) (auto dest: usable_entry)

lemma usable_of_merged:
  "usable [mergeMetadata sources] = assignAll (usable sources) []"
proof (cases "usable sources = []")
  case True
  then show ?thesis by (simp add: mergeMetadata_usable usable_Cons_None) (simp add: usable_def assignAll_def)
next
  case False
  have "set (assignAll (usable sources) []) \<subseteq> set (usable sources)"
    using set_assignAll [of "usable sources" "[]"] by simp
  then show ?thesis
    using False by (simp add: mergeMetadata_usable usable_Cons_Some filter_usable_id) (simp add: usable_def)
qed

lemma mergeMetadata_assoc:
  "mergeMetadata (xs @ mergeMetadata ys # zs) = mergeMetadata (xs @ ys @ zs)"
proof -
  have u: "usable (xs @ mergeMetadata ys # zs) = usable xs @ assignAll (usable ys) [] @ usable zs"
    using usable_append [of xs "[mergeMetadata ys] @ zs"] usable_append [of "[mergeMetadata ys]" zs]
    by (simp add: usable_of_merged)
  have a: "assignAll (usable (xs @ mergeMetadata ys # zs)) [] = assignAll (usable (xs @ ys @ zs)) []"
    unfolding u by (simp add: usable_append assignAll_append assignAll_idem)
  have "assignAll (usable ys) [] = [] \<longleftrightarrow> usable ys = []"
  proof
    assume "assignAll (usable ys) [] = []"
    then have "fst ` set (assignAll (usable ys) []) = {}" by simp
    then show "usable ys = []" by (simp add: keys_assignAll)
  qed (simp add: assignAll_def)
  then have e: "usable (xs @ mergeMetadata ys # zs) = [] \<longleftrightarrow> usable (xs @ ys @ zs) = []"
    unfolding u by (simp add: usable_append)
  show ?thesis
    unfolding mergeMetadata_usable [of "xs @ mergeMetadata ys # zs"] mergeMetadata_usable [of "xs @ ys @ zs"]
    using a e by simp
qed

lemma mergeMetadata_lookup:
  "map_of (case mergeMetadata sources of None \<Rightarrow> [] | Some m \<Rightarrow> m) = map_of (rev (usable sources))"
  by (simp add: mergeMetadata_usable map_of_assignAll)

lemma mergeMetadata_drops_forbidden:
  assumes "mergeMetadata sources = Some merged" "key \<in> fst ` set merged"
  shows "\<not> forbiddenKey key"
proof -
  from assms(1) have m: "merged = assignAll (usable sources) []"
    by (simp add: mergeMetadata_usable split: if_splits)
  with assms(2) have "key \<in> fst ` set (usable sources)" by (simp add: keys_assignAll)
  then show ?thesis by (auto dest: usable_entry)
qed


lemma mergeMetadata_null_iff: "mergeMetadata sources = None \<longleftrightarrow> usable sources = []"
  by (simp add: mergeMetadata_usable)

text \<open>
  C6: no result of a metadata merge holds \<open>__proto__\<close>, \<open>constructor\<close> or \<open>prototype\<close>.
  The hardened variant keeps that promise for every input
  (\<open>mergeMetadata_drops_forbidden\<close>); the plain variant of the same function has no such
  test: given the one source \<open>{constructor: "x"}\<close> it returns that object, key
  \<open>constructor\<close> included, where the hardened variant returns \<open>null\<close>.
\<close>

theorem mergeMetadata_plain_keeps_constructor:
  "mergeMetadata_plain [Some [(''constructor'', JStr ''x'')]] = Some [(''constructor'', JStr ''x'')]
   \<and> mergeMetadata [Some [(''constructor'', JStr ''x'')]] = None"
  by (simp add: mergeMetadata_plain_def assignOrdinary_def mergeMetadata_def forbiddenKey_def)

text \<open>
  C7: mergeMetadata is associative, right-biased, ignores \<open>undefined\<close> values and returns
  \<open>null\<close> exactly when no entry is left after the forbidden keys are removed. The
  hardened variant satisfies all four (\<open>mergeMetadata_assoc\<close>, \<open>mergeMetadata_lookup\<close>,
  \<open>mergeMetadata_usable\<close>, \<open>mergeMetadata_null_iff\<close>). The plain variant fails the last
  one: the sources \<open>{prototype: 1}\<close> and \<open>null\<close> leave no entry once forbidden keys are
  removed, and it returns \<open>{prototype: 1}\<close>, not \<open>null\<close>.
\<close>

theorem mergeMetadata_plain_not_null:
  "usable [Some [(''prototype'', JNum 1)], None] = []
   \<and> mergeMetadata_plain [Some [(''prototype'', JNum 1)], None] = Some [(''prototype'', JNum 1)]"
  by (simp add: usable_def forbiddenKey_def mergeMetadata_plain_def assignOrdinary_def)

section \<open>Properties of sanitizeError\<close>

text \<open>
  C9: for an Error object sanitizeError returns its name and message, with the code
  when (and only when) the \<open>code\<close> property is a string; a string is returned as it is;
  every other value gives the string \<open>Unknown error\<close>.
\<close>

theorem sanitizeError_cases:
  "sanitizeError (ErrorObject name message (JStr c)) = Fields name message (Some c)
   \<and> ((\<forall>c'. maybeCode \<noteq> JStr c') \<longrightarrow>
        sanitizeError (ErrorObject name message maybeCode) = Fields name message None)
   \<and> sanitizeError (Plain (JStr s)) = Text s
   \<and> ((\<forall>s'. v \<noteq> JStr s') \<longrightarrow> sanitizeError (Plain v) = Text ''Unknown error'')"
  by (cases maybeCode; cases v) simp_all

theorem sanitizeError_cases_witness:
  "sanitizeError (ErrorObject ''Error'' ''boom'' (JStr ''E_TEST'')) = Fields ''Error'' ''boom'' (Some ''E_TEST'')
   \<and> sanitizeError (ErrorObject ''Error'' ''boom'' JUndefined) = Fields ''Error'' ''boom'' None
   \<and> sanitizeError (Plain (JStr ''fail'')) = Text ''fail''
   \<and> sanitizeError (Plain (JRef 0)) = Text ''Unknown error''"
  using sanitizeError_cases [of "''Error''" "''boom''" "''E_TEST''" JUndefined "''fail''" "JRef 0"]
  by simp


section \<open>Properties of createUpdateAuditLogs\<close>

lemma presentRows_simps:
  "presentRows [] = []"
  "presentRows (None # rs) = presentRows rs"
  "presentRows (Some r # rs) = r # presentRows rs"
  "presentRows (xs @ ys) = presentRows xs @ presentRows ys"
  by (simp_all add: presentRows_def)

lemma fullLogs_acc:
  "fullLogs pk ff table cfg afterRecords logs =
   (case fullLogs pk ff table cfg afterRecords [] of Inl e \<Rightarrow> Inl e | Inr ls \<Rightarrow> Inr (logs @ ls))"
proof (induction afterRecords arbitrary: logs)
  case Nil
  then show ?case by simp
next
  case (Cons r rs)
  show ?case
  proof (cases r)
    case None
    then show ?thesis using Cons.IH [of logs] by simp
  next
    case (Some after)
    show ?thesis
    proof (cases "pk after table")
      case (Inl e)
      then show ?thesis by (simp add: Some)
    next
      case (Inr rid)
      show ?thesis
        using Cons.IH [of "logs @ [updateLog table rid (ff after table cfg)]"]
              Cons.IH [of "[updateLog table rid (ff after table cfg)]"]
        by (simp add: Some Inr split: sum.splits)
    qed
  qed
qed

lemma changedLogs_acc:
  "changedLogs pk ff gcv table cfg idx afterRecords logs =
   (case changedLogs pk ff gcv table cfg idx afterRecords [] of
      Inl e \<Rightarrow> Inl e | Inr ls \<Rightarrow> Inr (logs @ ls))"
proof (induction afterRecords arbitrary: logs)
  case Nil
  then show ?case by simp
next
  case (Cons r rs)
  have step: "\<And>x. changedLogs pk ff gcv table cfg idx rs (logs @ [x]) =
      (case changedLogs pk ff gcv table cfg idx rs [x] of
         Inl e \<Rightarrow> Inl e | Inr ls \<Rightarrow> Inr (logs @ ls))"
  proof -
    fix x
    show "changedLogs pk ff gcv table cfg idx rs (logs @ [x]) =
      (case changedLogs pk ff gcv table cfg idx rs [x] of
         Inl e \<Rightarrow> Inl e | Inr ls \<Rightarrow> Inr (logs @ ls))"
      using Cons.IH [of "logs @ [x]"] Cons.IH [of "[x]"] by (simp split: sum.splits)
  qed
  show ?case
  proof (cases r)
    case None
    then show ?thesis using Cons.IH [of logs] by simp
  next
    case (Some after)
    show ?thesis
    proof (cases "pk after table")
      case (Inl e)
      then show ?thesis by (simp add: Some)
    next
      case (Inr rid)
      show ?thesis
        using Cons.IH [of logs] step
        by (simp add: Some Inr Let_def split: option.splits)
    qed
  qed
qed


lemma fullLogs_Cons:
  "fullLogs pk ff table cfg (r # rs) [] =
   (case fullLogs pk ff table cfg [r] [] of
      Inl e \<Rightarrow> Inl e
    | Inr l1 \<Rightarrow> (case fullLogs pk ff table cfg rs [] of Inl e \<Rightarrow> Inl e | Inr l2 \<Rightarrow> Inr (l1 @ l2)))"
proof (cases r)
  case None
  then show ?thesis by (simp split: sum.splits)
next
  case (Some after)
  show ?thesis
  proof (cases "pk after table")
    case (Inl e)
    then show ?thesis by (simp add: Some)
  next
    case (Inr rid)
    then show ?thesis
      using fullLogs_acc [of pk ff table cfg rs "[updateLog table rid (ff after table cfg)]"]
      by (simp add: Some)
  qed
qed

lemma fullLogs_append:
  "fullLogs pk ff table cfg (xs @ ys) [] =
   (case fullLogs pk ff table cfg xs [] of
      Inl e \<Rightarrow> Inl e
    | Inr l1 \<Rightarrow> (case fullLogs pk ff table cfg ys [] of Inl e \<Rightarrow> Inl e | Inr l2 \<Rightarrow> Inr (l1 @ l2)))"
proof (induction xs)
  case Nil
  then show ?case by (simp split: sum.splits)
next
  case (Cons r xs)
  show ?case
    using fullLogs_Cons [of pk ff table cfg r "xs @ ys"] fullLogs_Cons [of pk ff table cfg r xs] Cons.IH
    by (simp split: sum.splits)
qed

lemma changedLogs_Cons:
  "changedLogs pk ff gcv table cfg idx (r # rs) [] =
   (case changedLogs pk ff gcv table cfg idx [r] [] of
      Inl e \<Rightarrow> Inl e
    | Inr l1 \<Rightarrow>
        (case changedLogs pk ff gcv table cfg idx rs [] of Inl e \<Rightarrow> Inl e | Inr l2 \<Rightarrow> Inr (l1 @ l2)))"
proof (cases r)
  case None
  then show ?thesis by (simp split: sum.splits)
next
  case (Some after)
  show ?thesis
  proof (cases "pk after table")
    case (Inl e)
    then show ?thesis by (simp add: Some)
  next
    case (Inr rid)
    have step: "\<And>x. changedLogs pk ff gcv table cfg idx rs [x] =
      (case changedLogs pk ff gcv table cfg idx rs [] of Inl e \<Rightarrow> Inl e | Inr ls \<Rightarrow> Inr ([x] @ ls))"
      by (rule changedLogs_acc)
    show ?thesis
      by (simp add: Some Inr Let_def step split: option.splits sum.splits)
  qed
qed

lemma changedLogs_append:
  "changedLogs pk ff gcv table cfg idx (xs @ ys) [] =
   (case changedLogs pk ff gcv table cfg idx xs [] of
      Inl e \<Rightarrow> Inl e
    | Inr l1 \<Rightarrow>
        (case changedLogs pk ff gcv table cfg idx ys [] of Inl e \<Rightarrow> Inl e | Inr l2 \<Rightarrow> Inr (l1 @ l2)))"
proof (induction xs)
  case Nil
  then show ?case by (simp split: sum.splits)
next
  case (Cons r xs)
  show ?case
    using changedLogs_Cons [of pk ff gcv table cfg idx r "xs @ ys"]
          changedLogs_Cons [of pk ff gcv table cfg idx r xs] Cons.IH
    by (simp split: sum.splits)
qed

lemma createUpdateAuditLogs_append:
  "createUpdateAuditLogs pk ff gcv table beforeRecords (xs @ ys) cfg =
   (case createUpdateAuditLogs pk ff gcv table beforeRecords xs cfg of
      Inl e \<Rightarrow> Inl e
    | Inr l1 \<Rightarrow>
        (case createUpdateAuditLogs pk ff gcv table beforeRecords ys cfg of
           Inl e \<Rightarrow> Inl e | Inr l2 \<Rightarrow> Inr (l1 @ l2)))"
  by (simp add: createUpdateAuditLogs_def fullLogs_append changedLogs_append split: sum.splits)

lemma fullLogs_rows:
  assumes "\<forall>a \<in> set (presentRows afterRecords). pk a table = Inr (key a)"
  shows "fullLogs pk ff table cfg afterRecords [] =
         Inr (map (\<lambda>a. updateLog table (key a) (ff a table cfg)) (presentRows afterRecords))"
  using assms
proof (induction afterRecords)
  case Nil
  then show ?case by (simp add: presentRows_simps)
next
  case (Cons r rs)
  then show ?case
    using fullLogs_Cons [of pk ff table cfg r rs]
    by (cases r) (simp_all add: presentRows_simps)
qed

lemma indexBefore_append:
  "indexBefore pk table (xs @ ys) m =
   (case indexBefore pk table xs m of Inl e \<Rightarrow> Inl e | Inr m1 \<Rightarrow> indexBefore pk table ys m1)"
proof (induction xs arbitrary: m)
  case Nil
  then show ?case by simp
next
  case (Cons r xs)
  show ?case
  proof (cases r)
    case None
    then show ?thesis using Cons.IH by simp
  next
    case (Some b)
    show ?thesis
    proof (cases "pk b table")
      case (Inl e)
      then show ?thesis by (simp add: Some)
    next
      case (Inr k)
      have "indexBefore pk table (xs @ ys) (m(k \<mapsto> b)) =
            (case indexBefore pk table xs (m(k \<mapsto> b)) of
               Inl e \<Rightarrow> Inl e | Inr m1 \<Rightarrow> indexBefore pk table ys m1)"
        by (rule Cons.IH)
      then show ?thesis by (simp add: Some Inr)
    qed
  qed
qed

lemma indexBefore_total:
  "\<forall>b \<in> set (presentRows beforeRecords). \<exists>r. pk b table = Inr r \<Longrightarrow>
   \<exists>idx. indexBefore pk table beforeRecords m = Inr idx"
proof (induction beforeRecords arbitrary: m)
  case Nil
  then show ?case by simp
next
  case (Cons r rs)
  then show ?case by (cases r) (auto simp: presentRows_simps)
qed

lemma indexBefore_other:
  "indexBefore pk table beforeRecords m = Inr idx \<Longrightarrow>
   \<forall>b \<in> set (presentRows beforeRecords). pk b table \<noteq> Inr rid \<Longrightarrow> idx rid = m rid"
proof (induction beforeRecords arbitrary: m)
  case Nil
  then show ?case by simp
next
  case (Cons r rs)
  show ?case
  proof (cases r)
    case None
    with Cons show ?thesis by (simp add: presentRows_simps)
  next
    case (Some b)
    with Cons.prems obtain k where k: "pk b table = Inr k" and
      rest: "indexBefore pk table rs (m(k \<mapsto> b)) = Inr idx"
      by (auto split: sum.splits)
    from Cons.prems(2) Some k have "k \<noteq> rid" by (auto simp: presentRows_simps)
    moreover have "idx rid = (m(k \<mapsto> b)) rid"
      using Cons.IH [OF rest] Cons.prems(2) Some by (simp add: presentRows_simps)
    ultimately show ?thesis by simp
  qed
qed

lemma indexBefore_last:
  assumes "\<forall>b \<in> set (presentRows (bpre @ Some before # bpost)). \<exists>r. pk b table = Inr r"
      and "pk before table = Inr rid"
      and "\<forall>b \<in> set (presentRows bpost). pk b table \<noteq> Inr rid"
  shows "\<exists>idx. indexBefore pk table (bpre @ Some before # bpost) m = Inr idx \<and> idx rid = Some before"
proof -
  from assms(1) have p1: "\<forall>b \<in> set (presentRows bpre). \<exists>r. pk b table = Inr r"
    and p2: "\<forall>b \<in> set (presentRows bpost). \<exists>r. pk b table = Inr r"
    by (auto simp: presentRows_simps)
  from p1 indexBefore_total [of bpre pk table m]
  obtain m1 where m1: "indexBefore pk table bpre m = Inr m1" by blast
  from p2 indexBefore_total [of bpost pk table "m1(rid \<mapsto> before)"]
  obtain idx where idx: "indexBefore pk table bpost (m1(rid \<mapsto> before)) = Inr idx" by blast
  have "idx rid = (m1(rid \<mapsto> before)) rid" by (rule indexBefore_other [OF idx assms(3)])
  then show ?thesis by (simp add: indexBefore_append m1 assms(2) idx)
qed


lemma createUpdateAuditLogs_full:
  assumes "updateValuesMode cfg = Full \<or> beforeRecords = []"
      and "\<forall>a \<in> set (presentRows afterRecords). pk a table = Inr (key a)"
  shows "createUpdateAuditLogs pk ff gcv table beforeRecords afterRecords cfg =
         Inr (map (\<lambda>a. updateLog table (key a) (ff a table cfg)) (presentRows afterRecords))"
  using assms fullLogs_rows [of afterRecords pk table key ff cfg]
  by (auto simp: createUpdateAuditLogs_def)

lemma createUpdateAuditLogs_row:
  assumes "createUpdateAuditLogs pk ff gcv table beforeRecords pre cfg = Inr logsPre"
      and "createUpdateAuditLogs pk ff gcv table beforeRecords post cfg = Inr logsPost"
      and "createUpdateAuditLogs pk ff gcv table beforeRecords [Some after] cfg = Inr logsRow"
  shows "createUpdateAuditLogs pk ff gcv table beforeRecords (pre @ Some after # post) cfg =
         Inr (logsPre @ logsRow @ logsPost)"
proof -
  have "createUpdateAuditLogs pk ff gcv table beforeRecords ([Some after] @ post) cfg =
        Inr (logsRow @ logsPost)"
    unfolding createUpdateAuditLogs_append [of pk ff gcv table beforeRecords "[Some after]" post cfg]
    by (simp add: assms)
  then show ?thesis
    unfolding createUpdateAuditLogs_append [of pk ff gcv table beforeRecords pre "Some after # post" cfg]
    by (simp add: assms)
qed

lemma createUpdateAuditLogs_unmatched:
  assumes "updateValuesMode cfg = Changed" "beforeRecords \<noteq> []"
      and "\<forall>b \<in> set (presentRows beforeRecords). \<exists>r. pk b table = Inr r \<and> r \<noteq> rid"
      and "pk after table = Inr rid"
  shows "createUpdateAuditLogs pk ff gcv table beforeRecords [Some after] cfg =
         Inr [updateLog table rid (ff after table cfg)]"
proof -
  from assms(3) have tot: "\<forall>b \<in> set (presentRows beforeRecords). \<exists>r. pk b table = Inr r"
    and other: "\<forall>b \<in> set (presentRows beforeRecords). pk b table \<noteq> Inr rid"
    by auto
  from tot indexBefore_total [of beforeRecords pk table Map.empty]
  obtain idx where idx: "indexBefore pk table beforeRecords Map.empty = Inr idx" by blast
  have "idx rid = None" using indexBefore_other [OF idx other] by simp
  then show ?thesis
    using assms(1,2,4) by (simp add: createUpdateAuditLogs_def idx)
qed

lemma createUpdateAuditLogs_matched:
  assumes "updateValuesMode cfg = Changed"
      and "\<forall>b \<in> set (presentRows (bpre @ Some before # bpost)). \<exists>r. pk b table = Inr r"
      and "pk before table = Inr rid"
      and "\<forall>b \<in> set (presentRows bpost). pk b table \<noteq> Inr rid"
      and "pk after table = Inr rid"
  shows "createUpdateAuditLogs pk ff (\<lambda>b a. Some (getChangedValues same b a)) table
           (bpre @ Some before # bpost) [Some after] cfg =
         Inr (if \<exists>e \<in> set (ff after table cfg). differsFrom same (ff before table cfg) e
              then [updateLog table rid
                      (filter (differsFrom same (ff before table cfg)) (ff after table cfg))]
              else [])"
proof -
  from assms(2,3,4) indexBefore_last [of bpre before bpost pk table rid Map.empty]
  obtain idx where idx: "indexBefore pk table (bpre @ Some before # bpost) Map.empty = Inr idx"
    and hit: "idx rid = Some before" by blast
  have ne: "filter P xs \<noteq> [] \<longleftrightarrow> (\<exists>e \<in> set xs. P e)" for P :: "string \<times> jsval \<Rightarrow> bool" and xs
    by (simp add: filter_empty_conv)
  show ?thesis
    using assms(1,5)
    by (simp add: createUpdateAuditLogs_def idx hit getChangedValues_def ne Let_def)
qed

lemma shouldAudit_false_noop:
  assumes "\<not> shouldAudit (config lg) table"
  shows "logInsert mk write table ins lg = (Inr (), lg)"
    and "logUpdate pk ff gcv write table bs as lg = (Inr (), lg)"
    and "logDelete mk' write table del lg = (Inr (), lg)"
  using assms by (simp_all add: logInsert_def logUpdate_def logDelete_def)


section \<open>Properties of the encoder and of extractPrimaryKey\<close>

lemma replacer_toJSON:
  "\<exists>v' seen'. replacer seen (toJSON v) = Inr (v', seen') \<and> seen \<subseteq> seen'
     \<and> (\<forall>i. v' \<noteq> JBigInt i) \<and> (\<forall>d. v' \<noteq> JDate d)
     \<and> (\<forall>a. v' = JRef a \<longrightarrow> a \<notin> seen \<and> seen' = insert a seen)
     \<and> ((\<forall>a. v' \<noteq> JRef a) \<longrightarrow> seen' = seen)"
proof (cases v)
  case (JDate d)
  then show ?thesis by (cases d) auto
qed auto

lemma serMembers_settles:
  "settles f S \<Longrightarrow> S \<subseteq> seen \<Longrightarrow>
   \<exists>partial seen'. serMembers f seen props = Some (Inr (partial, seen')) \<and> seen \<subseteq> seen'"
proof (induction props arbitrary: seen)
  case Nil
  then show ?case by simp
next
  case (Cons p props)
  obtain key v where p: "p = (key, v)" by (cases p)
  from Cons.prems obtain r seen1 where f: "f seen v = Some (Inr (r, seen1))" and s1: "seen \<subseteq> seen1"
    unfolding settles_def by blast
  from Cons.prems(2) s1 have "S \<subseteq> seen1" by blast
  from Cons.IH [OF Cons.prems(1) this] obtain partial seen2
    where m: "serMembers f seen1 props = Some (Inr (partial, seen2))" and s2: "seen1 \<subseteq> seen2"
    by blast
  show ?case using s1 s2 by (simp add: p f m)
qed

lemma serElements_settles:
  "settles f S \<Longrightarrow> S \<subseteq> seen \<Longrightarrow>
   \<exists>partial seen'. serElements f seen elems = Some (Inr (partial, seen')) \<and> seen \<subseteq> seen'"
proof (induction elems arbitrary: seen)
  case Nil
  then show ?case by simp
next
  case (Cons v elems)
  from Cons.prems obtain r seen1 where f: "f seen v = Some (Inr (r, seen1))" and s1: "seen \<subseteq> seen1"
    unfolding settles_def by blast
  from Cons.prems(2) s1 have "S \<subseteq> seen1" by blast
  from Cons.IH [OF Cons.prems(1) this] obtain partial seen2
    where m: "serElements f seen1 elems = Some (Inr (partial, seen2))" and s2: "seen1 \<subseteq> seen2"
    by blast
  show ?case using s1 s2 by (simp add: f m)
qed

lemma unseen_less:
  assumes "a \<in> fst ` set h" "a \<notin> seen" "insert a seen \<subseteq> seen2"
  shows "card (fst ` set h - seen2) < card (fst ` set h - seen)"
proof (rule psubset_card_mono)
  show "finite (fst ` set h - seen)" by simp
  show "fst ` set h - seen2 \<subset> fst ` set h - seen" using assms by blast
qed

lemma deref_unlisted: "a \<notin> fst ` set h \<Longrightarrow> deref h a = JObject []"
  using map_of_eq_None_iff [of h a] by (simp add: deref_def)

lemma serProperty_returns:
  "set stack \<subseteq> seen \<Longrightarrow> card (fst ` set h - seen) < n \<Longrightarrow>
   \<exists>r seen'. serProperty n h stack seen v = Some (Inr (r, seen')) \<and> seen \<subseteq> seen'"
proof (induction n arbitrary: stack seen v)
  case 0
  then show ?case by simp
next
  case (Suc n)
  from replacer_toJSON [of seen v] obtain v' seen' where
    rp: "replacer seen (toJSON v) = Inr (v', seen')" and sub: "seen \<subseteq> seen'"
    and nb: "\<forall>i. v' \<noteq> JBigInt i" and nd: "\<forall>d. v' \<noteq> JDate d"
    and ref: "\<forall>a. v' = JRef a \<longrightarrow> a \<notin> seen \<and> seen' = insert a seen"
    by blast
  show ?case
  proof (cases v')
    case (JRef a)
    with ref have fresh: "a \<notin> seen" and seen': "seen' = insert a seen" by auto
    from fresh Suc.prems(1) have nostack: "a \<notin> set stack" by blast
    show ?thesis
    proof (cases "a \<in> fst ` set h")
      case False
      then show ?thesis
        using sub by (simp add: rp JRef nostack deref_unlisted)
    next
      case True
      have st: "settles (serProperty n h (a # stack)) seen'"
        unfolding settles_def
      proof (intro allI impI)
        fix seen2 w
        assume s2: "seen' \<subseteq> seen2"
        then have "insert a seen \<subseteq> seen2" by (simp add: seen')
        from unseen_less [OF True fresh this] Suc.prems(2)
        have c: "card (fst ` set h - seen2) < n" by simp
        have "set (a # stack) \<subseteq> seen2" using s2 Suc.prems(1) seen' by auto
        from Suc.IH [OF this c]
        show "\<exists>r seen3. serProperty n h (a # stack) seen2 w = Some (Inr (r, seen3)) \<and> seen2 \<subseteq> seen3" .
      qed
      show ?thesis
      proof (cases "deref h a")
        case (JObject props)
        from serMembers_settles [OF st subset_refl, of props] obtain partial seen3
          where "serMembers (serProperty n h (a # stack)) seen' props = Some (Inr (partial, seen3))"
            and "seen' \<subseteq> seen3" by blast
        then show ?thesis using sub by (auto simp: rp JRef nostack JObject)
      next
        case (JArray elems)
        from serElements_settles [OF st subset_refl, of elems] obtain partial seen3
          where "serElements (serProperty n h (a # stack)) seen' elems = Some (Inr (partial, seen3))"
            and "seen' \<subseteq> seen3" by blast
        then show ?thesis using sub by (auto simp: rp JRef nostack JArray)
      qed
    qed
  qed (use rp sub nb nd in auto)
qed

lemma serProperty_ref_text:
  "serProperty n h stack seen (JRef a) = Some (Inr (r, seen')) \<Longrightarrow> r \<noteq> None \<and> r \<noteq> Some []"
  by (cases n) (auto simp: quoteJSONString_def quoted_def split: if_splits jsobj.splits option.splits sum.splits)


lemma card_listed: "card (fst ` set h - {}) \<le> length h"
  using card_length [of "map fst h"] by simp

lemma safeStringifyForPK_returns:
  assumes "length h < n"
  shows "\<exists>s seen. serProperty n h [] {} (JRef a) = Some (Inr (Some s, seen))
           \<and> safeStringifyForPK n h a = Some (Some s) \<and> s \<noteq> []"
proof -
  have "card (fst ` set h - {}) < n" using card_listed [of h] assms by simp
  from serProperty_returns [of "[]" "{}" h n "JRef a", OF _ this]
  obtain r seen where r: "serProperty n h [] {} (JRef a) = Some (Inr (r, seen))" by auto
  from serProperty_ref_text [OF r] obtain s where "r = Some s" "s \<noteq> []" by (cases r) auto
  then show ?thesis using r by (simp add: safeStringifyForPK_def)
qed

lemma resolveKeys_missing:
  "\<exists>field \<in> set keys. isNullish (getProp record field) \<Longrightarrow> resolveKeys record keys resolved = None"
  by (induction keys arbitrary: resolved) (auto simp: Let_def)

lemma resolveKeys_present:
  "\<forall>field \<in> set keys. \<not> isNullish (getProp record field) \<Longrightarrow>
   resolveKeys record keys resolved =
   Some (assignAll (map (\<lambda>field. (field, getProp record field)) keys) resolved)"
  by (induction keys arbitrary: resolved) (auto simp: Let_def assignAll_def)

lemma resolveKeys_agree:
  "\<forall>field \<in> set keys. getProp r1 field = getProp r2 field \<Longrightarrow>
   resolveKeys r1 keys resolved = resolveKeys r2 keys resolved"
  by (induction keys arbitrary: resolved) (auto simp: Let_def)

lemma extractConfiguredPrimaryKey_agree:
  "\<forall>field \<in> set (keysOf key). getProp r1 field = getProp r2 field \<Longrightarrow>
   extractConfiguredPrimaryKey n ots h r1 key = extractConfiguredPrimaryKey n ots h r2 key"
  using resolveKeys_agree [of "keysOf key" r1 r2 "[]"]
  by (simp add: extractConfiguredPrimaryKey_def)

lemma extractPrimaryKey_unconfigured:
  "tableConfigMap table = None \<Longrightarrow>
   extractPrimaryKey n ots h record table tableConfigMap =
   Some (Inl (Error (''tables.'' @ table @ ''.primaryKey is required'')))"
  by (simp add: extractPrimaryKey_def)

lemma extractPrimaryKey_missing:
  assumes "tableConfigMap table = Some key" "key \<noteq> Single []"
      and "\<exists>field \<in> set (keysOf key). isNullish (getProp record field)"
  shows "extractPrimaryKey n ots h record table tableConfigMap =
         Some (Inl (Error (''record missing configured primaryKey field(s) for table: '' @ table)))"
  using assms resolveKeys_missing [of "keysOf key" "record" "[]"]
  by (simp add: extractPrimaryKey_def extractConfiguredPrimaryKey_def)

lemma extractPrimaryKey_agree:
  assumes "\<forall>key field. tableConfigMap table = Some key \<and> field \<in> set (keysOf key)
             \<longrightarrow> getProp r1 field = getProp r2 field"
  shows "extractPrimaryKey n ots h r1 table tableConfigMap =
         extractPrimaryKey n ots h r2 table tableConfigMap"
proof (cases "tableConfigMap table")
  case None
  then show ?thesis by (simp add: extractPrimaryKey_def)
next
  case (Some key)
  with assms have "\<forall>field \<in> set (keysOf key). getProp r1 field = getProp r2 field" by simp
  from extractConfiguredPrimaryKey_agree [OF this]
  show ?thesis by (simp add: extractPrimaryKey_def Some)
qed

lemma getProp_assignAll_single:
  "getProp (assignAll [(k, v)] []) k = v"
  by (simp add: assignAll_def getProp_def)

lemma extractPrimaryKey_single:
  assumes "tableConfigMap table = Some key" "key \<noteq> Single []" "keysOf key = [k]"
      and "\<not> isNullish (getProp record k)"
  shows "extractPrimaryKey n ots h record table tableConfigMap =
         Some (Inr (jsString ots (getProp record k)))"
  using assms resolveKeys_present [of "keysOf key" "record" "[]"]
  by (simp add: extractPrimaryKey_def extractConfiguredPrimaryKey_def assignAll_def getProp_def)

lemma extractPrimaryKey_composite:
  assumes "tableConfigMap table = Some key" "length (keysOf key) \<noteq> 1"
      and "\<forall>field \<in> set (keysOf key). \<not> isNullish (getProp record field)"
      and "Suc (length h) < n"
      and "resolved = assignAll (map (\<lambda>field. (field, getProp record field)) (keysOf key)) []"
      and "a = newAddr h resolved"
  shows "\<exists>s seen. serProperty n ((a, JObject resolved) # h) [] {} (JRef a) = Some (Inr (Some s, seen))
           \<and> extractPrimaryKey n ots h record table tableConfigMap = Some (Inr s) \<and> s \<noteq> []"
proof -
  from assms(2) have ne: "key \<noteq> Single []" by auto
  have "length ((a, JObject resolved) # h) < n" using assms(4) by simp
  from safeStringifyForPK_returns [OF this, of a] obtain s seen where
    s: "serProperty n ((a, JObject resolved) # h) [] {} (JRef a) = Some (Inr (Some s, seen))"
    and t: "safeStringifyForPK n ((a, JObject resolved) # h) a = Some (Some s)" and "s \<noteq> []"
    by blast
  moreover have "extractPrimaryKey n ots h record table tableConfigMap = Some (Inr s)"
    using assms(1,2,5,6) ne t resolveKeys_present [OF assms(3), of "[]"]
    by (simp add: extractPrimaryKey_def extractConfiguredPrimaryKey_def Let_def)
  ultimately show ?thesis by blast
qed


end
